theory Spec2Isabelle
  imports Complex_Main "HOL-Library.Multiset"
begin

section \<open>Strings\<close>

text \<open>
  A JavaScript string is modelled as a \<^typ>\<open>string\<close> whose characters are read as the
  code points U+0000 to U+00FF. On that range \<open>String.prototype.trim\<close> removes the
  characters TAB, LF, VT, FF, CR, SPACE and NBSP from both ends, and
  \<open>String.prototype.toLowerCase\<close> adds 32 to the upper-case letters A-Z and
  U+00C0 to U+00DE (the multiplication sign U+00D7 apart).
\<close>

definition isWhiteSpace :: "char \<Rightarrow> bool" where
  "isWhiteSpace c = (of_char c \<in> {9, 10, 11, 12, 13, 32, 160 :: nat})"

definition trim :: "string \<Rightarrow> string" where
  "trim s = rev (dropWhile isWhiteSpace (rev (dropWhile isWhiteSpace s)))"

definition lowerChar :: "char \<Rightarrow> char" where
  "lowerChar c =
     (let n = (of_char c :: nat)
      in if (65 \<le> n \<and> n \<le> 90) \<or> (192 \<le> n \<and> n \<le> 222 \<and> n \<noteq> 215)
         then char_of (n + 32) else c)"

definition toLowerCase :: "string \<Rightarrow> string" where
  "toLowerCase s = map lowerChar s"

text \<open>
  \<open>input.split(',')\<close>: the pieces between the commas; the empty string gives one empty
  piece.
\<close>

fun split_comma :: "string \<Rightarrow> string list" where
  "split_comma [] = [[]]"
| "split_comma (c # cs) =
     (if c = CHR '','' then [] # split_comma cs
      else (case split_comma cs of [] \<Rightarrow> [[c]] | w # ws \<Rightarrow> (c # w) # ws))"

text \<open>
  The regular expression \<open>/^https?:\/\//i\<close>. With the flag \<open>i\<close> two characters
  match when their canonical (upper-case) forms agree; \<open>canonicalize\<close> is that form on
  the modelled range (the upper-case forms of U+00B5 and U+00FF lie outside it and
  equal no character of the pattern). \<open>matchLiteral p s\<close> consumes the literal \<open>p\<close>
  at the start of \<open>s\<close> and returns the rest; \<open>s?\<close> is tried with the \<open>s\<close> first
  and without it on failure.
\<close>

definition canonicalize :: "char \<Rightarrow> char" where
  "canonicalize c =
     (let n = (of_char c :: nat)
      in if (97 \<le> n \<and> n \<le> 122) \<or> (224 \<le> n \<and> n \<le> 254 \<and> n \<noteq> 247)
         then char_of (n - 32) else c)"

fun matchLiteral :: "string \<Rightarrow> string \<Rightarrow> string option" where
  "matchLiteral [] s = Some s"
| "matchLiteral (p # ps) [] = None"
| "matchLiteral (p # ps) (c # cs) =
     (if canonicalize c = canonicalize p then matchLiteral ps cs else None)"

definition hasScheme :: "string \<Rightarrow> bool" where
  "hasScheme s =
     (case matchLiteral ''http'' s of
        None \<Rightarrow> False
      | Some r \<Rightarrow>
          (case matchLiteral ''s'' r of
             Some r' \<Rightarrow> matchLiteral ''://'' r' \<noteq> None \<or> matchLiteral ''://'' r \<noteq> None
           | None \<Rightarrow> matchLiteral ''://'' r \<noteq> None))"

text \<open>
  The pattern's own characters are lower-case ASCII letters and punctuation below
  \<open>A\<close>; for such a character, matching under the flag \<open>i\<close> is equality after
  \<open>toLowerCase\<close>.
\<close>

definition patChar :: "char \<Rightarrow> bool" where
  "patChar p = ((97 \<le> (of_char p :: nat) \<and> (of_char p :: nat) \<le> 122) \<or> (of_char p :: nat) < 65)"

text \<open>
  The specification's wording of the same test: the string starts with \<open>http://\<close> or
  \<open>https://\<close>, letters compared without regard to case.
\<close>

definition startsWithScheme :: "string \<Rightarrow> bool" where
  "startsWithScheme t =
     (toLowerCase (take 7 t) = ''http://'' \<or> toLowerCase (take 8 t) = ''https://'')"

text \<open>Decimal digits of a natural number, for the template literal of the import message.\<close>

fun showNat :: "nat \<Rightarrow> string" where
  "showNat n =
     (if n < 10 then [char_of (48 + n)]
      else showNat (n div 10) @ [char_of (48 + n mod 10)])"

declare showNat.simps [simp del]

section \<open>App.jsx: normalizeUrl and parseTags\<close>

text \<open>
  \<open>normalizeUrl\<close> is called with strings only (a form field, or an imported \<open>url\<close>
  that passed the \<open>typeof item.url === 'string'\<close> filter), so \<open>rawUrl.trim()\<close> does
  not throw and the \<open>catch\<close> branch is not reached.
\<close>

definition normalizeUrl :: "string \<Rightarrow> string" where
  "normalizeUrl rawUrl =
     (if rawUrl = [] then []
      else (let trimmed = trim rawUrl
            in if hasScheme trimmed then trimmed else ''https://'' @ trimmed))"

definition parseTags :: "string \<Rightarrow> string list" where
  "parseTags input =
     map toLowerCase (filter (\<lambda>tag. tag \<noteq> []) (map trim (split_comma input)))"

section \<open>JavaScript values\<close>

text \<open>
  The values \<open>JSON.parse\<close> returns, with \<open>undefined\<close> for an absent property. A number
  is a finite rational, an infinity (\<open>JSON.parse("1e999")\<close>) or NaN; an object is the
  association list of its own properties.
\<close>

datatype jsnum = Finite rat | PosInf | NegInf | NaN

datatype jsval =
    JUndefined
  | JNull
  | JBool bool
  | JNum jsnum
  | JStr string
  | JArr "jsval list"
  | JObj "(string \<times> jsval) list"

datatype js_error = TypeError | OpenError string | ConstraintError | DataError | NullReason

text \<open>
  The values a promise of the program is rejected with: the exceptions and request
  errors above, and \<open>NullReason\<close> for the value \<open>null\<close>, which is what \<open>tx.error\<close>
  holds until the transaction has been aborted.
\<close>

text \<open>
  Property access \<open>v.k\<close> for the keys the program reads (\<open>links\<close>, \<open>url\<close>, \<open>id\<close>,
  \<open>title\<close>, \<open>note\<close>, \<open>tags\<close>, \<open>createdAt\<close>, \<open>updatedAt\<close>): none of them is inherited,
  so only an object's own property gives a value. The program guards every access
  against \<open>null\<close> and \<open>undefined\<close> (\<open>item && ...\<close>, \<open>data?.links\<close>).
\<close>

fun getProp :: "jsval \<Rightarrow> string \<Rightarrow> jsval" where
  "getProp (JObj ps) k = (case map_of ps k of Some v \<Rightarrow> v | None \<Rightarrow> JUndefined)"
| "getProp _ k = JUndefined"

fun truthy :: "jsval \<Rightarrow> bool" where
  "truthy JUndefined = False"
| "truthy JNull = False"
| "truthy (JBool b) = b"
| "truthy (JNum n) = (n \<noteq> Finite 0 \<and> n \<noteq> NaN)"
| "truthy (JStr s) = (s \<noteq> [])"
| "truthy (JArr xs) = True"
| "truthy (JObj ps) = True"

fun isFinite :: "jsval \<Rightarrow> bool" where
  "isFinite (JNum (Finite q)) = True"
| "isFinite _ = False"

text \<open>The specification's "well-formed id": a string that is not empty.\<close>

definition isNonEmptyString :: "jsval \<Rightarrow> bool" where
  "isNonEmptyString v = (case v of JStr s \<Rightarrow> s \<noteq> [] | _ \<Rightarrow> False)"

text \<open>
  The method call \<open>v.toString()\<close>: a TypeError on \<open>null\<close> and \<open>undefined\<close> and on an
  object whose own property \<open>toString\<close> shadows the inherited method (a parsed value
  is never callable); an array joins its elements with commas, \<open>null\<close> and \<open>undefined\<close>
  elements giving the empty string. The text of a number is left to the parameter
  \<open>ns\<close> (\<open>Number.prototype.toString\<close>).
\<close>

fun toString_js :: "(jsnum \<Rightarrow> string) \<Rightarrow> jsval \<Rightarrow> js_error + string"
and join_js :: "(jsnum \<Rightarrow> string) \<Rightarrow> jsval list \<Rightarrow> js_error + string" where
  "toString_js ns JUndefined = Inl TypeError"
| "toString_js ns JNull = Inl TypeError"
| "toString_js ns (JBool b) = Inr (if b then ''true'' else ''false'')"
| "toString_js ns (JNum n) = Inr (ns n)"
| "toString_js ns (JStr s) = Inr s"
| "toString_js ns (JArr xs) = join_js ns xs"
| "toString_js ns (JObj ps) =
     (if map_of ps ''toString'' = None then Inr ''[object Object]'' else Inl TypeError)"
| "join_js ns [] = Inr []"
| "join_js ns (x # xs) =
     (case (if x = JUndefined \<or> x = JNull then Inr [] else toString_js ns x) of
        Inl e \<Rightarrow> Inl e
      | Inr s \<Rightarrow>
          (if xs = [] then Inr s
           else (case join_js ns xs of Inl e \<Rightarrow> Inl e | Inr r \<Rightarrow> Inr (s @ '','' @ r))))"

section \<open>Link records\<close>

record link =
  link_id :: jsval
  url :: string
  title :: string
  noteText :: string
  tags :: "string list"
  createdAt :: rat
  updatedAt :: rat

section \<open>db.js\<close>

text \<open>
  The module state is \<open>dbPromise\<close>: \<open>None\<close> for \<open>null\<close>, otherwise the settled promise,
  rejected (\<open>Inl\<close>) or resolved with the connection. \<open>openCalls\<close> counts the calls of
  \<open>indexedDB.open\<close>, and \<open>objects\<close> is the content of the object store \<open>links\<close> (key
  path \<open>id\<close>), which outlives the connection. The parameter \<open>idb\<close> is the browser:
  \<open>idb n\<close> is the error of the \<open>n\<close>-th open request, \<open>None\<close> when it succeeds.
\<close>

record db_state =
  dbPromise :: "(js_error + unit) option"
  openCalls :: nat
  objects :: "link list"

definition initial_db :: "link list \<Rightarrow> db_state" where
  "initial_db objs = \<lparr>dbPromise = None, openCalls = 0, objects = objs\<rparr>"

definition openDB :: "(nat \<Rightarrow> js_error option) \<Rightarrow> db_state \<Rightarrow> (js_error + unit) \<times> db_state" where
  "openDB idb st =
     (case dbPromise st of
        Some p \<Rightarrow> (p, st)
      | None \<Rightarrow>
          (let p = (case idb (openCalls st) of None \<Rightarrow> Inr () | Some e \<Rightarrow> Inl e)
           in (p, st\<lparr>dbPromise := Some p, openCalls := Suc (openCalls st)\<rparr>)))"

text \<open>
  The settled value of the first open request, and the two shapes the module state can
  have: nothing opened yet, or one open request made and its promise memoized.
\<close>

definition firstOutcome :: "(nat \<Rightarrow> js_error option) \<Rightarrow> js_error + unit" where
  "firstOutcome idb = (case idb 0 of None \<Rightarrow> Inr () | Some e \<Rightarrow> Inl e)"

definition memoInv :: "(nat \<Rightarrow> js_error option) \<Rightarrow> db_state \<Rightarrow> bool" where
  "memoInv idb st =
     ((dbPromise st = None \<and> openCalls st = 0)
      \<or> (dbPromise st = Some (firstOutcome idb) \<and> openCalls st = 1))"

text \<open>
  The requests of an IndexedDB object store with the in-line key path \<open>id\<close>. A value
  whose key is not a valid key (a number other than NaN, a string, an array of valid
  keys) makes \<open>add\<close>, \<open>put\<close> and \<open>delete\<close> throw a DataError at the call; \<open>add\<close> on a
  key that is present returns a request that fails later with a ConstraintError;
  \<open>put\<close> replaces or inserts; \<open>delete\<close> of an absent key succeeds. \<open>getAll\<close> lists the
  records; the order of the list is not part of the model (the caller sorts again).
\<close>

datatype 'a outcome = Throws js_error | Fails js_error | Succeeds 'a

fun validKey :: "jsval \<Rightarrow> bool" where
  "validKey (JNum n) = (n \<noteq> NaN)"
| "validKey (JStr s) = True"
| "validKey (JArr xs) = (\<forall>x \<in> set xs. validKey x)"
| "validKey _ = False"

definition store_add :: "link \<Rightarrow> link list \<Rightarrow> link list outcome" where
  "store_add v objs =
     (if \<not> validKey (link_id v) then Throws DataError
      else if link_id v \<in> set (map link_id objs) then Fails ConstraintError
      else Succeeds (objs @ [v]))"

definition store_put :: "link \<Rightarrow> link list \<Rightarrow> link list outcome" where
  "store_put v objs =
     (if \<not> validKey (link_id v) then Throws DataError
      else if link_id v \<in> set (map link_id objs)
           then Succeeds (map (\<lambda>r. if link_id r = link_id v then v else r) objs)
      else Succeeds (objs @ [v]))"

definition store_delete :: "jsval \<Rightarrow> link list \<Rightarrow> link list outcome" where
  "store_delete k objs =
     (if \<not> validKey k then Throws DataError
      else Succeeds (filter (\<lambda>r. link_id r \<noteq> k) objs))"

text \<open>
  \<open>withStore\<close> awaits \<open>openDB\<close> (a failed open rejects with the open request's error)
  and runs the callback in one transaction, inside the executor of a new promise.
  An exception of the callback rejects the promise with that exception. A request
  that fails fires an error event, which bubbles to \<open>tx.onerror\<close> before the
  transaction is aborted; \<open>tx.error\<close> is set by the abort only, so the handler's
  \<open>reject(tx.error)\<close> rejects with \<open>null\<close>, and \<open>tx.onabort\<close> finds the promise
  settled. In both cases the store is left as it was. All three callers pass the mode
  \<open>'readwrite'\<close>.
\<close>

definition withStore ::
  "(nat \<Rightarrow> js_error option) \<Rightarrow> (link list \<Rightarrow> link list outcome) \<Rightarrow> db_state
     \<Rightarrow> (js_error + unit) \<times> db_state" where
  "withStore idb callback st =
     (case openDB idb st of
        (Inl e, st') \<Rightarrow> (Inl e, st')
      | (Inr _, st') \<Rightarrow>
          (case callback (objects st') of
             Throws e \<Rightarrow> (Inl e, st')
           | Fails e \<Rightarrow> (Inl NullReason, st')
           | Succeeds objs \<Rightarrow> (Inr (), st'\<lparr>objects := objs\<rparr>)))"

definition getAllLinks ::
  "(nat \<Rightarrow> js_error option) \<Rightarrow> db_state \<Rightarrow> (js_error + link list) \<times> db_state" where
  "getAllLinks idb st =
     (case openDB idb st of
        (Inl e, st') \<Rightarrow> (Inl e, st')
      | (Inr _, st') \<Rightarrow> (Inr (objects st'), st'))"

definition addLink ::
  "(nat \<Rightarrow> js_error option) \<Rightarrow> link \<Rightarrow> db_state \<Rightarrow> (js_error + unit) \<times> db_state" where
  "addLink idb l st = withStore idb (store_add l) st"

definition updateLink ::
  "(nat \<Rightarrow> js_error option) \<Rightarrow> link \<Rightarrow> db_state \<Rightarrow> (js_error + unit) \<times> db_state" where
  "updateLink idb l st = withStore idb (store_put l) st"

definition deleteLink ::
  "(nat \<Rightarrow> js_error option) \<Rightarrow> jsval \<Rightarrow> db_state \<Rightarrow> (js_error + unit) \<times> db_state" where
  "deleteLink idb k st = withStore idb (store_delete k) st"

text \<open>
  The names the module exports: the four \<open>export async function\<close> declarations and
  \<open>export { DB_NAME, STORE_NAME }\<close>. An import of a name binds to the export of that
  name; \<open>import_binding name impl\<close> is the binding, \<open>impl\<close> standing for the exported
  value, and \<open>None\<close> when the module has no export of that name.
\<close>

definition db_exports :: "string list" where
  "db_exports =
     [''getAllLinks'', ''addLink'', ''updateLink'', ''deleteLink'', ''DB_NAME'', ''STORE_NAME'']"

definition import_binding :: "string \<Rightarrow> 'a \<Rightarrow> 'a option" where
  "import_binding name impl = (if name \<in> set db_exports then Some impl else None)"

text \<open>A sequence of store operations issued one after the other, with their results.\<close>

datatype request = GetAll | Add link | Update link | Delete jsval

datatype reply = Records "link list" | Done

definition perform ::
  "(nat \<Rightarrow> js_error option) \<Rightarrow> request \<Rightarrow> db_state \<Rightarrow> (js_error + reply) \<times> db_state" where
  "perform idb rq st =
     (case rq of
        GetAll \<Rightarrow> (case getAllLinks idb st of (r, st') \<Rightarrow> (map_sum id Records r, st'))
      | Add l \<Rightarrow> (case addLink idb l st of (r, st') \<Rightarrow> (map_sum id (\<lambda>_. Done) r, st'))
      | Update l \<Rightarrow> (case updateLink idb l st of (r, st') \<Rightarrow> (map_sum id (\<lambda>_. Done) r, st'))
      | Delete k \<Rightarrow> (case deleteLink idb k st of (r, st') \<Rightarrow> (map_sum id (\<lambda>_. Done) r, st')))"

fun run ::
  "(nat \<Rightarrow> js_error option) \<Rightarrow> request list \<Rightarrow> db_state \<Rightarrow> (js_error + reply) list \<times> db_state" where
  "run idb [] st = ([], st)"
| "run idb (rq # rqs) st =
     (case perform idb rq st of
        (r, st') \<Rightarrow> (case run idb rqs st' of (rs, st'') \<Rightarrow> (r # rs, st'')))"

section \<open>App.jsx: the component state and its handlers\<close>

record form_values =
  f_url :: string
  f_title :: string
  f_note :: string
  f_tags :: string

definition emptyForm :: form_values where
  "emptyForm = \<lparr>f_url = [], f_title = [], f_note = [], f_tags = []\<rparr>"

text \<open>
  The state variables of the component that the handlers below read or write. \<open>links\<close>
  is the collection held in memory, next to the object store of \<open>db.js\<close>.
\<close>

record app_state =
  links :: "link list"
  form :: form_values
  saving :: bool
  error :: string
  tagFilter :: string
  editingId :: "jsval option"
  editForm :: form_values
  importMessage :: string

text \<open>
  \<open>handleAdd\<close>: \<open>now\<close> is the value of \<open>Date.now()\<close> and \<open>uuid\<close> that of
  \<open>crypto.randomUUID()\<close>. A blank URL field is refused before anything is built.
\<close>

definition handleAdd ::
  "(nat \<Rightarrow> js_error option) \<Rightarrow> int \<Rightarrow> string \<Rightarrow> app_state \<times> db_state \<Rightarrow> app_state \<times> db_state" where
  "handleAdd idb now uuid w =
     (case w of (ap0, st) \<Rightarrow>
        (let ap = ap0\<lparr>error := []\<rparr>
         in if trim (f_url (form ap)) = [] then (ap\<lparr>error := ''Please enter a URL.''\<rparr>, st)
            else
              (let normalized = normalizeUrl (f_url (form ap));
                   newLink = \<lparr>link_id = JStr uuid,
                              url = normalized,
                              title = (if trim (f_title (form ap)) \<noteq> [] then trim (f_title (form ap))
                                       else normalized),
                              noteText = trim (f_note (form ap)),
                              tags = parseTags (f_tags (form ap)),
                              createdAt = of_int now,
                              updatedAt = of_int now\<rparr>
               in (case addLink idb newLink st of
                     (Inr _, st') \<Rightarrow>
                       (ap\<lparr>links := newLink # links ap, form := emptyForm,
                           tagFilter := ''all'', saving := False\<rparr>, st')
                   | (Inl _, st') \<Rightarrow>
                       (ap\<lparr>error := ''Could not save that link.'', saving := False\<rparr>, st')))))"

definition cancelEdit :: "app_state \<Rightarrow> app_state" where
  "cancelEdit ap = ap\<lparr>editingId := None, editForm := emptyForm\<rparr>"

text \<open>
  \<open>saveEdit\<close>: the record is rebuilt from the edit form with no test of the URL
  field, written with \<open>updateLink\<close>, and replaced in \<open>links\<close> where the id agrees.
\<close>

definition saveEdit ::
  "(nat \<Rightarrow> js_error option) \<Rightarrow> int \<Rightarrow> link \<Rightarrow> app_state \<times> db_state \<Rightarrow> app_state \<times> db_state" where
  "saveEdit idb now l w =
     (case w of (ap, st) \<Rightarrow>
        (let updated = l\<lparr>url := normalizeUrl (f_url (editForm ap)),
                          title := (if trim (f_title (editForm ap)) \<noteq> [] then trim (f_title (editForm ap))
                                    else normalizeUrl (f_url (editForm ap))),
                          noteText := trim (f_note (editForm ap)),
                          tags := parseTags (f_tags (editForm ap)),
                          updatedAt := of_int now\<rparr>
         in (case updateLink idb updated st of
               (Inr _, st') \<Rightarrow>
                 (cancelEdit
                    (ap\<lparr>links := map (\<lambda>item. if link_id item = link_id l then updated else item)
                                       (links ap)\<rparr>), st')
             | (Inl _, st') \<Rightarrow> (ap\<lparr>error := ''Could not update that link.''\<rparr>, st'))))"

definition removeLink ::
  "(nat \<Rightarrow> js_error option) \<Rightarrow> link \<Rightarrow> app_state \<times> db_state \<Rightarrow> app_state \<times> db_state" where
  "removeLink idb l w =
     (case w of (ap, st) \<Rightarrow>
        (case deleteLink idb (link_id l) st of
           (Inr _, st') \<Rightarrow>
             (ap\<lparr>links := filter (\<lambda>item. link_id item \<noteq> link_id l) (links ap)\<rparr>, st')
         | (Inl _, st') \<Rightarrow> (ap\<lparr>error := ''Could not delete that link.''\<rparr>, st')))"

section \<open>App.jsx: import\<close>

text \<open>The filter of \<open>normalizeImportedLinks\<close>: \<open>item && typeof item.url === 'string'\<close>.\<close>

definition survives :: "jsval \<Rightarrow> bool" where
  "survives item = (truthy item \<and> (case getProp item ''url'' of JStr u \<Rightarrow> True | _ \<Rightarrow> False))"

text \<open>\<open>item.tags.map((tag) => tag.toString().toLowerCase().trim())\<close>\<close>

fun normTags :: "(jsnum \<Rightarrow> string) \<Rightarrow> jsval list \<Rightarrow> js_error + string list" where
  "normTags ns [] = Inr []"
| "normTags ns (t # ts) =
     (case toString_js ns t of
        Inl e \<Rightarrow> Inl e
      | Inr s \<Rightarrow>
          (case normTags ns ts of
             Inl e \<Rightarrow> Inl e
           | Inr r \<Rightarrow> Inr (trim (toLowerCase s) # r)))"

text \<open>
  The callback of the \<open>map\<close>, for one item that passed the filter (its \<open>url\<close> is a
  string): \<open>now\<close> and \<open>uuid\<close> are what \<open>Date.now()\<close> and \<open>crypto.randomUUID()\<close> give
  in this call. A \<open>toString\<close> that throws ends the whole import.
\<close>

definition normalizeItem :: "(jsnum \<Rightarrow> string) \<Rightarrow> int \<Rightarrow> string \<Rightarrow> jsval \<Rightarrow> js_error + link" where
  "normalizeItem ns now uuid item =
     (let normalizedUrl = (case getProp item ''url'' of JStr u \<Rightarrow> normalizeUrl u | _ \<Rightarrow> [])
      in case (if truthy (getProp item ''title'') then toString_js ns (getProp item ''title'')
               else Inr normalizedUrl) of
           Inl e \<Rightarrow> Inl e
         | Inr t \<Rightarrow>
             (case (if truthy (getProp item ''note'') then toString_js ns (getProp item ''note'')
                    else Inr []) of
                Inl e \<Rightarrow> Inl e
              | Inr n \<Rightarrow>
                  (case (case getProp item ''tags'' of JArr ts \<Rightarrow> normTags ns ts | _ \<Rightarrow> Inr []) of
                     Inl e \<Rightarrow> Inl e
                   | Inr tg \<Rightarrow>
                       Inr \<lparr>link_id = (if truthy (getProp item ''id'') then getProp item ''id''
                                       else JStr uuid),
                            url = normalizedUrl,
                            title = trim t,
                            noteText = trim n,
                            tags = filter (\<lambda>tag. tag \<noteq> []) tg,
                            createdAt = (case getProp item ''createdAt'' of
                                           JNum (Finite q) \<Rightarrow> q | _ \<Rightarrow> of_int now),
                            updatedAt = (case getProp item ''updatedAt'' of
                                           JNum (Finite q) \<Rightarrow> q | _ \<Rightarrow> of_int now)\<rparr>)))"

text \<open>
  The \<open>map\<close> over the filtered list; \<open>clock i\<close> and \<open>uuids i\<close> are the values of
  \<open>Date.now()\<close> and \<open>crypto.randomUUID()\<close> in the call for the \<open>i\<close>-th item.
\<close>

fun normalizeFrom ::
  "(jsnum \<Rightarrow> string) \<Rightarrow> (nat \<Rightarrow> int) \<Rightarrow> (nat \<Rightarrow> string) \<Rightarrow> nat \<Rightarrow> jsval list \<Rightarrow> js_error + link list" where
  "normalizeFrom ns clock uuids i [] = Inr []"
| "normalizeFrom ns clock uuids i (item # items) =
     (case normalizeItem ns (clock i) (uuids i) item of
        Inl e \<Rightarrow> Inl e
      | Inr l \<Rightarrow>
          (case normalizeFrom ns clock uuids (Suc i) items of
             Inl e \<Rightarrow> Inl e
           | Inr ls \<Rightarrow> Inr (l # ls)))"

definition normalizeImportedLinks ::
  "(jsnum \<Rightarrow> string) \<Rightarrow> (nat \<Rightarrow> int) \<Rightarrow> (nat \<Rightarrow> string) \<Rightarrow> jsval \<Rightarrow> js_error + link list" where
  "normalizeImportedLinks ns clock uuids data =
     (let list = (case data of JArr xs \<Rightarrow> data | _ \<Rightarrow> getProp data ''links'')
      in case list of
           JArr xs \<Rightarrow> normalizeFrom ns clock uuids 0 (filter survives xs)
         | _ \<Rightarrow> Inr [])"

text \<open>The items of the imported list that pass the filter, in order.\<close>

definition candidates :: "jsval \<Rightarrow> jsval list" where
  "candidates data =
     (case (case data of JArr xs \<Rightarrow> data | _ \<Rightarrow> getProp data ''links'') of
        JArr xs \<Rightarrow> filter survives xs
      | _ \<Rightarrow> [])"

text \<open>
  The chosen file after \<open>file.text()\<close> and \<open>JSON.parse\<close>: no file, a text that does
  not parse, or the parsed value.
\<close>

datatype upload = NoFile | Unparsable | Parsed jsval

text \<open>\<open>[...].sort((a, b) => b.createdAt - a.createdAt)\<close>: stable, newest first.\<close>

definition sortNewestFirst :: "link list \<Rightarrow> link list" where
  "sortNewestFirst ls = sort_key (\<lambda>l. - createdAt l) ls"

text \<open>
  \<open>importLinks\<close>. The name \<open>putLinks\<close> is imported from \<open>./db\<close>; \<open>impl\<close> stands for
  the function that export would be. Calling a name that has no binding throws inside
  the \<open>try\<close>, and the \<open>catch\<close> reports the failure. (Under strict module linking the
  component does not load at all; no write happens either way.)
\<close>

definition importLinks ::
  "(jsnum \<Rightarrow> string) \<Rightarrow> (nat \<Rightarrow> int) \<Rightarrow> (nat \<Rightarrow> string)
     \<Rightarrow> (link list \<Rightarrow> db_state \<Rightarrow> (js_error + unit) \<times> db_state)
     \<Rightarrow> upload \<Rightarrow> app_state \<times> db_state \<Rightarrow> app_state \<times> db_state" where
  "importLinks ns clock uuids impl file w =
     (case w of (ap0, st) \<Rightarrow>
        (case file of
           NoFile \<Rightarrow> (ap0, st)
         | Unparsable \<Rightarrow> (ap0\<lparr>importMessage := ''Could not import that file.''\<rparr>, st)
         | Parsed parsed \<Rightarrow>
             (let ap = ap0\<lparr>importMessage := []\<rparr>
              in case normalizeImportedLinks ns clock uuids parsed of
                   Inl e \<Rightarrow> (ap\<lparr>importMessage := ''Could not import that file.''\<rparr>, st)
                 | Inr incoming \<Rightarrow>
                     if incoming = []
                     then (ap\<lparr>importMessage := ''No valid links found in that file.''\<rparr>, st)
                     else
                       (let merged = filter (\<lambda>l. url l \<notin> set (map url (links ap))) incoming
                        in if merged = []
                           then (ap\<lparr>importMessage := ''All links already exist.''\<rparr>, st)
                           else
                             (case import_binding ''putLinks'' impl of
                                None \<Rightarrow> (ap\<lparr>importMessage := ''Could not import that file.''\<rparr>, st)
                              | Some putLinks \<Rightarrow>
                                  (case putLinks merged st of
                                     (Inl e, st') \<Rightarrow>
                                       (ap\<lparr>importMessage := ''Could not import that file.''\<rparr>, st')
                                   | (Inr _, st') \<Rightarrow>
                                       (ap\<lparr>links := sortNewestFirst (merged @ links ap),
                                           importMessage :=
                                             ''Imported '' @ showNat (length merged) @ '' link''
                                               @ (if length merged = 1 then [] else ''s'') @ ''.''\<rparr>,
                                        st')))))))"

section \<open>Sample environments\<close>

text \<open>
  Concrete browsers for the evaluations below: one whose database opens, one whose
  first open request fails, a clock that reads \<open>t\<close> at every call, identifiers
  numbered by call, and a number printer for the naturals.
\<close>

definition opensFine :: "nat \<Rightarrow> js_error option" where
  "opensFine n = None"

definition firstOpenFails :: "js_error \<Rightarrow> nat \<Rightarrow> js_error option" where
  "firstOpenFails e n = (if n = 0 then Some e else None)"

definition clockAt :: "int \<Rightarrow> nat \<Rightarrow> int" where
  "clockAt t i = t"

definition uuidNumbered :: "nat \<Rightarrow> string" where
  "uuidNumbered i = ''uuid-'' @ showNat i"

definition naturalText :: "jsnum \<Rightarrow> string" where
  "naturalText n =
     (case n of
        Finite q \<Rightarrow> showNat (nat \<lfloor>q\<rfloor>)
      | PosInf \<Rightarrow> ''Infinity''
      | NegInf \<Rightarrow> ''-Infinity''
      | NaN \<Rightarrow> ''NaN'')"

definition sampleLink :: "string \<Rightarrow> string \<Rightarrow> link" where
  "sampleLink i u =
     \<lparr>link_id = JStr i, url = u, title = u, noteText = [], tags = [],
      createdAt = 1000, updatedAt = 1000\<rparr>"

definition sampleApp :: "link list \<Rightarrow> form_values \<Rightarrow> app_state" where
  "sampleApp ls ef =
     \<lparr>links = ls, form = emptyForm, saving = False, error = [], tagFilter = ''all'',
      editingId = None, editForm = ef, importMessage = []\<rparr>"

section \<open>Lemmas\<close>

lemma of_char_lt: "(of_char c :: nat) < 256"
  by (cases c) (simp)

lemma char_of_of_char_nat: "char_of (of_char c :: nat) = c"
  by simp

lemma lowerChar_cases:
  "of_char (lowerChar c) = (let n = (of_char c :: nat) in
     if (65 \<le> n \<and> n \<le> 90) \<or> (192 \<le> n \<and> n \<le> 222 \<and> n \<noteq> 215) then n + 32 else n)"
  using of_char_lt[of c] by (simp add: lowerChar_def Let_def)

lemma canonicalize_cases:
  "of_char (canonicalize c) = (let n = (of_char c :: nat) in
     if (97 \<le> n \<and> n \<le> 122) \<or> (224 \<le> n \<and> n \<le> 254 \<and> n \<noteq> 247) then n - 32 else n)"
  using of_char_lt[of c] by (auto simp add: canonicalize_def Let_def)

lemma char_eq_iff_nat: "c = d \<longleftrightarrow> (of_char c :: nat) = of_char d"
  by (metis char_of_of_char_nat)

lemma isWhiteSpace_lowerChar [simp]: "isWhiteSpace (lowerChar c) = isWhiteSpace c"
  unfolding isWhiteSpace_def lowerChar_cases by (auto simp: Let_def)

lemma lowerChar_idem [simp]: "lowerChar (lowerChar c) = lowerChar c"
  unfolding char_eq_iff_nat[of "lowerChar (lowerChar c)"] lowerChar_cases[of "lowerChar c"]
  unfolding lowerChar_cases by (auto simp: Let_def)

lemma ci_nat:
  fixes n m :: nat
  assumes "(97 \<le> m \<and> m \<le> 122) \<or> m < 65"
  shows "((if (97 \<le> n \<and> n \<le> 122) \<or> (224 \<le> n \<and> n \<le> 254 \<and> n \<noteq> 247) then n - 32 else n)
          = (if (97 \<le> m \<and> m \<le> 122) \<or> (224 \<le> m \<and> m \<le> 254 \<and> m \<noteq> 247) then m - 32 else m))
     \<longleftrightarrow> ((if (65 \<le> n \<and> n \<le> 90) \<or> (192 \<le> n \<and> n \<le> 222 \<and> n \<noteq> 215) then n + 32 else n) = m)"
  using assms by (auto split: if_splits)

lemma ci_pat: "patChar p \<Longrightarrow> canonicalize c = canonicalize p \<longleftrightarrow> lowerChar c = p"
proof -
  assume "patChar p"
  then have m: "(97 \<le> (of_char p :: nat) \<and> (of_char p :: nat) \<le> 122) \<or> (of_char p :: nat) < 65"
    by (simp add: patChar_def)
  have "canonicalize c = canonicalize p \<longleftrightarrow> (of_char (canonicalize c) :: nat) = of_char (canonicalize p)"
    by (rule char_eq_iff_nat)
  also have "\<dots> \<longleftrightarrow> (of_char (lowerChar c) :: nat) = of_char p"
    unfolding canonicalize_cases lowerChar_cases Let_def by (rule ci_nat[OF m])
  also have "\<dots> \<longleftrightarrow> lowerChar c = p"
    by (rule char_eq_iff_nat[symmetric])
  finally show ?thesis .
qed

lemma matchLiteral_iff:
  "\<forall>p \<in> set ps. patChar p \<Longrightarrow>
   matchLiteral ps s = Some r \<longleftrightarrow> (\<exists>q. s = q @ r \<and> toLowerCase q = ps)"
proof (induction ps s rule: matchLiteral.induct)
  case (1 s)
  then show ?case by (auto simp: toLowerCase_def)
next
  case (2 p ps)
  then show ?case by (auto simp: toLowerCase_def)
next
  case (3 p ps c cs)
  have pc: "patChar p" using 3 by simp
  show ?case
  proof (cases "canonicalize c = canonicalize p")
    case True
    then have lc: "lowerChar c = p" using ci_pat[OF pc] by simp
    have "matchLiteral (p # ps) (c # cs) = Some r \<longleftrightarrow> (\<exists>q. cs = q @ r \<and> toLowerCase q = ps)"
      using 3 True by simp
    also have "\<dots> \<longleftrightarrow> (\<exists>q. c # cs = q @ r \<and> toLowerCase q = p # ps)"
      using lc by (auto simp: toLowerCase_def Cons_eq_append_conv)
    finally show ?thesis .
  next
    case False
    then have lc: "lowerChar c \<noteq> p" using ci_pat[OF pc] by simp
    then show ?thesis using False by (auto simp: toLowerCase_def Cons_eq_append_conv)
  qed
qed

lemma matchLiteral_append:
  "matchLiteral (a @ b) s = Some r \<longleftrightarrow> (\<exists>m. matchLiteral a s = Some m \<and> matchLiteral b m = Some r)"
  by (induction a s rule: matchLiteral.induct) auto

lemma hasScheme_match:
  "hasScheme s \<longleftrightarrow> (\<exists>r. matchLiteral ''http://'' s = Some r) \<or> (\<exists>r. matchLiteral ''https://'' s = Some r)"
proof -
  have a: "\<And>r. matchLiteral ''http://'' s = Some r \<longleftrightarrow>
      (\<exists>m. matchLiteral ''http'' s = Some m \<and> matchLiteral ''://'' m = Some r)"
    using matchLiteral_append[of "''http''" "''://''" s] by simp
  have b: "\<And>r. matchLiteral ''https://'' s = Some r \<longleftrightarrow>
      (\<exists>m. matchLiteral ''http'' s = Some m \<and> (\<exists>m'. matchLiteral ''s'' m = Some m' \<and> matchLiteral ''://'' m' = Some r))"
    using matchLiteral_append[of "''http''" "''s://''" s] matchLiteral_append[of "''s''" "''://''"] by simp
  show ?thesis
    unfolding a b hasScheme_def by (auto split: option.splits)
qed

lemma hasScheme_iff:
  "hasScheme s \<longleftrightarrow> (\<exists>q r. s = q @ r \<and> (toLowerCase q = ''http://'' \<or> toLowerCase q = ''https://''))"
proof -
  have p1: "\<forall>p \<in> set ''http://''. patChar p" by (simp add: patChar_def)
  have p2: "\<forall>p \<in> set ''https://''. patChar p" by (simp add: patChar_def)
  show ?thesis
    unfolding hasScheme_match matchLiteral_iff[OF p1] matchLiteral_iff[OF p2] by blast
qed

lemma trim_Nil [simp]: "trim [] = []"
  by (simp add: trim_def)

lemma trim_whitespace: "\<forall>c \<in> set s. isWhiteSpace c \<Longrightarrow> trim s = []"
proof -
  assume "\<forall>c \<in> set s. isWhiteSpace c"
  then have e: "dropWhile isWhiteSpace s = []" by (auto dest: set_dropWhileD)
  show ?thesis unfolding trim_def e by simp
qed

lemma dropWhile_rev_keep:
  "xs \<noteq> [] \<Longrightarrow> \<not> P (hd xs) \<Longrightarrow> dropWhile P (rev (dropWhile P (rev xs))) = rev (dropWhile P (rev xs))"
proof -
  assume ne: "xs \<noteq> []" and h: "\<not> P (hd xs)"
  then obtain x ys where xs: "xs = x # ys" by (cases xs) auto
  have "dropWhile P (rev xs) \<noteq> []" using xs h by (auto simp: dropWhile_append)
  moreover have "last (dropWhile P (rev xs)) = x"
    using xs h by (auto simp: dropWhile_append)
  ultimately have "hd (rev (dropWhile P (rev xs))) = x" "rev (dropWhile P (rev xs)) \<noteq> []"
    by (simp_all add: hd_rev)
  then show ?thesis using h xs by (cases "rev (dropWhile P (rev xs))") auto
qed

lemma trim_idem [simp]: "trim (trim s) = trim s"
proof (cases "dropWhile isWhiteSpace s = []")
  case True
  show ?thesis unfolding trim_def True by simp
next
  case False
  then have h: "\<not> isWhiteSpace (hd (dropWhile isWhiteSpace s))"
    by (simp add: hd_dropWhile)
  have e: "dropWhile isWhiteSpace (rev (dropWhile isWhiteSpace (rev (dropWhile isWhiteSpace s))))
           = rev (dropWhile isWhiteSpace (rev (dropWhile isWhiteSpace s)))"
    using dropWhile_rev_keep[of "dropWhile isWhiteSpace s" isWhiteSpace] False h by blast
  show ?thesis
    unfolding trim_def e by (simp add: dropWhile_idem)
qed

lemma trim_toLowerCase: "trim (toLowerCase s) = toLowerCase (trim s)"
proof -
  have c: "isWhiteSpace \<circ> lowerChar = isWhiteSpace" by (rule ext) simp
  have dw: "\<And>xs. dropWhile isWhiteSpace (map lowerChar xs) = map lowerChar (dropWhile isWhiteSpace xs)"
    by (simp add: dropWhile_map c)
  show ?thesis
    by (simp add: trim_def toLowerCase_def dw rev_map)
qed

lemma toLowerCase_idem [simp]: "toLowerCase (toLowerCase s) = toLowerCase s"
  by (simp add: toLowerCase_def)

lemma parseTags_entries:
  "t \<in> set (parseTags input) \<Longrightarrow> t \<noteq> [] \<and> trim t = t \<and> toLowerCase t = t"
  by (auto simp: parseTags_def trim_toLowerCase) (simp add: toLowerCase_def)

lemma openDB_connected:
  "fst (openDB idb st) = Inr () \<Longrightarrow>
   openDB idb st = (Inr (), snd (openDB idb st)) \<and> objects (snd (openDB idb st)) = objects st"
  by (auto simp: openDB_def Let_def split: option.splits)

lemma withStore_connected:
  assumes "fst (openDB idb st) = Inr ()"
  shows "withStore idb callback st =
     (case callback (objects st) of
        Throws e \<Rightarrow> (Inl e, snd (openDB idb st))
      | Fails e \<Rightarrow> (Inl NullReason, snd (openDB idb st))
      | Succeeds objs \<Rightarrow> (Inr (), (snd (openDB idb st))\<lparr>objects := objs\<rparr>))"
proof -
  obtain st' where o: "openDB idb st = (Inr (), st')" and ob: "objects st' = objects st"
    using openDB_connected[OF assms] by blast
  show ?thesis by (simp add: withStore_def o ob split: outcome.splits)
qed

lemma openDB_again:
  "fst (openDB idb st) = Inr () \<Longrightarrow> fst (openDB idb (snd (openDB idb st))) = Inr ()"
  by (auto simp: openDB_def Let_def split: option.splits)

lemma openDB_again_upd:
  "fst (openDB idb st) = Inr () \<Longrightarrow>
   openDB idb ((snd (openDB idb st))\<lparr>objects := objs\<rparr>)
     = (Inr (), (snd (openDB idb st))\<lparr>objects := objs\<rparr>)"
  by (auto simp: openDB_def Let_def split: option.splits)

lemma getAllLinks_after:
  "fst (openDB idb st) = Inr () \<Longrightarrow>
   fst (getAllLinks idb ((snd (openDB idb st))\<lparr>objects := objs\<rparr>)) = Inr objs"
  by (simp add: getAllLinks_def openDB_again_upd)

lemma addLink_rejects_or_adds:
  assumes conn: "fst (openDB idb st) = Inr ()" and key: "validKey (link_id l)"
  shows "(link_id l \<in> set (map link_id (objects st)) \<longrightarrow>
            store_add l (objects st) = Fails ConstraintError
          \<and> fst (addLink idb l st) = Inl NullReason
          \<and> objects (snd (addLink idb l st)) = objects st
          \<and> fst (getAllLinks idb (snd (addLink idb l st))) = Inr (objects st))
       \<and> (link_id l \<notin> set (map link_id (objects st)) \<longrightarrow>
            fst (addLink idb l st) = Inr ()
          \<and> (\<exists>rs. fst (getAllLinks idb (snd (addLink idb l st))) = Inr rs
                 \<and> mset rs = add_mset l (mset (objects st))))"
proof (intro conjI impI)
  assume dup: "link_id l \<in> set (map link_id (objects st))"
  then show c: "store_add l (objects st) = Fails ConstraintError"
    using key by (simp add: store_add_def)
  have a: "addLink idb l st = (Inl NullReason, snd (openDB idb st))"
    by (simp add: addLink_def withStore_connected[OF conn] c)
  show "fst (addLink idb l st) = Inl NullReason" by (simp add: a)
  show "objects (snd (addLink idb l st)) = objects st"
    using openDB_connected[OF conn] by (simp add: a)
  have "getAllLinks idb (snd (openDB idb st)) = (Inr (objects (snd (openDB idb st))), snd (openDB idb st))"
    using openDB_again[OF conn] openDB_connected[OF conn]
    by (auto simp: getAllLinks_def openDB_def Let_def split: option.splits)
  then show "fst (getAllLinks idb (snd (addLink idb l st))) = Inr (objects st)"
    using openDB_connected[OF conn] by (simp add: a)
next
  assume fresh: "link_id l \<notin> set (map link_id (objects st))"
  then have c: "store_add l (objects st) = Succeeds (objects st @ [l])"
    using key by (simp add: store_add_def)
  have a: "addLink idb l st = (Inr (), (snd (openDB idb st))\<lparr>objects := objects st @ [l]\<rparr>)"
    by (simp add: addLink_def withStore_connected[OF conn] c)
  show "fst (addLink idb l st) = Inr ()" by (simp add: a)
  have "fst (getAllLinks idb (snd (addLink idb l st))) = Inr (objects st @ [l])"
    by (simp add: a getAllLinks_after[OF conn])
  then show "\<exists>rs. fst (getAllLinks idb (snd (addLink idb l st))) = Inr rs
                 \<and> mset rs = add_mset l (mset (objects st))"
    by simp
qed

lemma store_put_member:
  "validKey (link_id l) \<Longrightarrow> \<exists>objs. store_put l xs = Succeeds objs \<and> l \<in> set objs
     \<and> (\<forall>r \<in> set objs. link_id r = link_id l \<longrightarrow> r = l)
     \<and> filter (\<lambda>r. link_id r \<noteq> link_id l) objs = filter (\<lambda>r. link_id r \<noteq> link_id l) xs
     \<and> (link_id l \<in> set (map link_id xs) \<longrightarrow> length objs = length xs)
     \<and> (link_id l \<notin> set (map link_id xs) \<longrightarrow> objs = xs @ [l])"
proof (cases "link_id l \<in> set (map link_id xs)")
  case True
  assume k: "validKey (link_id l)"
  let ?objs = "map (\<lambda>r. if link_id r = link_id l then l else r) xs"
  have p: "store_put l xs = Succeeds ?objs" using True k by (simp add: store_put_def)
  have m: "l \<in> set ?objs" using True by (auto simp: image_iff)
  have f: "filter (\<lambda>r. link_id r \<noteq> link_id l) ?objs = filter (\<lambda>r. link_id r \<noteq> link_id l) xs"
    by (induction xs) auto
  have u: "\<forall>r \<in> set ?objs. link_id r = link_id l \<longrightarrow> r = l"
    by auto
  show ?thesis
  proof (intro exI conjI impI)
    show "store_put l xs = Succeeds ?objs" by (rule p)
    show "l \<in> set ?objs" by (rule m)
    show "\<forall>r \<in> set ?objs. link_id r = link_id l \<longrightarrow> r = l" by (rule u)
    show "filter (\<lambda>r. link_id r \<noteq> link_id l) ?objs = filter (\<lambda>r. link_id r \<noteq> link_id l) xs"
      by (rule f)
    show "length ?objs = length xs" by simp
    show "?objs = xs @ [l]" if "link_id l \<notin> set (map link_id xs)" using that True by blast
  qed
next
  case False
  assume k: "validKey (link_id l)"
  have p: "store_put l xs = Succeeds (xs @ [l])" using False k by (simp add: store_put_def)
  have f: "filter (\<lambda>r. link_id r \<noteq> link_id l) (xs @ [l]) = filter (\<lambda>r. link_id r \<noteq> link_id l) xs"
    by simp
  have u: "\<forall>r \<in> set (xs @ [l]). link_id r = link_id l \<longrightarrow> r = l"
    using False by (auto simp: image_iff)
  show ?thesis
  proof (intro exI conjI impI)
    show "store_put l xs = Succeeds (xs @ [l])" by (rule p)
    show "l \<in> set (xs @ [l])" by simp
    show "\<forall>r \<in> set (xs @ [l]). link_id r = link_id l \<longrightarrow> r = l" by (rule u)
    show "filter (\<lambda>r. link_id r \<noteq> link_id l) (xs @ [l]) = filter (\<lambda>r. link_id r \<noteq> link_id l) xs"
      by (rule f)
    show "length (xs @ [l]) = length xs" if "link_id l \<in> set (map link_id xs)"
      using that False by blast
    show "xs @ [l] = xs @ [l]" by (rule refl)
  qed
qed

lemma normalizeUrl_whitespace:
  assumes "s \<noteq> []" and "\<forall>c \<in> set s. isWhiteSpace c"
  shows "normalizeUrl s = ''https://''"
proof -
  have t: "trim s = []" by (rule trim_whitespace[OF assms(2)])
  have h: "\<not> hasScheme []" by (simp add: hasScheme_def)
  show ?thesis using assms(1) by (simp add: normalizeUrl_def t h)
qed

lemma openDB_memo:
  assumes "memoInv idb st"
  shows "fst (openDB idb st) = (firstOutcome idb)
       \<and> dbPromise (snd (openDB idb st)) = Some (firstOutcome idb)
       \<and> openCalls (snd (openDB idb st)) = 1
       \<and> objects (snd (openDB idb st)) = objects st"
  using assms by (auto simp: openDB_def Let_def memoInv_def firstOutcome_def)

lemma withStore_memo:
  assumes "memoInv idb st"
  shows "dbPromise (snd (withStore idb cb st)) = Some (firstOutcome idb)
       \<and> openCalls (snd (withStore idb cb st)) = 1
       \<and> (\<forall>e. idb 0 = Some e \<longrightarrow>
             fst (withStore idb cb st) = Inl e \<and> objects (snd (withStore idb cb st)) = objects st)"
proof -
  obtain r st' where o: "openDB idb st = (r, st')" by (cases "openDB idb st")
  have m: "r = (firstOutcome idb)"
    "dbPromise st' = Some (firstOutcome idb)"
    "openCalls st' = 1" "objects st' = objects st"
    using openDB_memo[OF assms] by (simp_all add: o)
  show ?thesis
    using m by (cases r; cases "cb (objects st')") (auto simp: withStore_def o firstOutcome_def split: option.splits)
qed

lemma getAllLinks_memo:
  assumes "memoInv idb st"
  shows "dbPromise (snd (getAllLinks idb st)) = Some (firstOutcome idb)
       \<and> openCalls (snd (getAllLinks idb st)) = 1
       \<and> (\<forall>e. idb 0 = Some e \<longrightarrow>
             fst (getAllLinks idb st) = Inl e \<and> objects (snd (getAllLinks idb st)) = objects st)"
proof -
  obtain r st' where o: "openDB idb st = (r, st')" by (cases "openDB idb st")
  have m: "r = (firstOutcome idb)"
    "dbPromise st' = Some (firstOutcome idb)"
    "openCalls st' = 1" "objects st' = objects st"
    using openDB_memo[OF assms] by (simp_all add: o)
  show ?thesis
    using m by (cases r) (auto simp: getAllLinks_def o firstOutcome_def split: option.splits)
qed

lemma perform_memo:
  assumes "memoInv idb st"
  shows "dbPromise (snd (perform idb rq st)) = Some (firstOutcome idb)
       \<and> openCalls (snd (perform idb rq st)) = 1
       \<and> (\<forall>e. idb 0 = Some e \<longrightarrow>
             fst (perform idb rq st) = Inl e \<and> objects (snd (perform idb rq st)) = objects st)"
proof (cases rq)
  case GetAll
  show ?thesis using getAllLinks_memo[OF assms]
    by (cases "getAllLinks idb st") (auto simp: perform_def GetAll)
next
  case (Add l)
  show ?thesis using withStore_memo[OF assms, of "store_add l"]
    by (cases "withStore idb (store_add l) st") (auto simp: perform_def Add addLink_def)
next
  case (Update l)
  show ?thesis using withStore_memo[OF assms, of "store_put l"]
    by (cases "withStore idb (store_put l) st") (auto simp: perform_def Update updateLink_def)
next
  case (Delete k)
  show ?thesis using withStore_memo[OF assms, of "store_delete k"]
    by (cases "withStore idb (store_delete k) st") (auto simp: perform_def Delete deleteLink_def)
qed

lemma run_memo:
  assumes "memoInv idb st"
  shows "openCalls (snd (run idb rqs st)) \<le> 1
       \<and> (rqs \<noteq> [] \<longrightarrow> openCalls (snd (run idb rqs st)) = 1
            \<and> dbPromise (snd (run idb rqs st)) = Some (firstOutcome idb))
       \<and> (\<forall>e. idb 0 = Some e \<longrightarrow>
             (\<forall>r \<in> set (fst (run idb rqs st)). r = Inl e) \<and> objects (snd (run idb rqs st)) = objects st)"
  using assms
proof (induction rqs arbitrary: st)
  case Nil
  then show ?case by (auto simp: memoInv_def)
next
  case (Cons rq rqs)
  obtain r st' where p: "perform idb rq st = (r, st')" by (cases "perform idb rq st")
  obtain rs st'' where q: "run idb rqs st' = (rs, st'')" by (cases "run idb rqs st'")
  have m: "dbPromise st' = Some (firstOutcome idb)"
    "openCalls st' = 1" "\<forall>e. idb 0 = Some e \<longrightarrow> r = Inl e \<and> objects st' = objects st"
    using perform_memo[OF Cons.prems, of rq] by (simp_all add: p)
  have i': "memoInv idb st'" using m by (simp add: memoInv_def)
  have ih: "openCalls st'' \<le> 1"
    "rqs \<noteq> [] \<longrightarrow> openCalls st'' = 1
        \<and> dbPromise st'' = Some (firstOutcome idb)"
    "\<forall>e. idb 0 = Some e \<longrightarrow> (\<forall>r \<in> set rs. r = Inl e) \<and> objects st'' = objects st'"
    using Cons.IH[OF i'] by (simp_all add: q)
  have e: "rqs = [] \<Longrightarrow> st'' = st'" using q by simp
  have r: "run idb (rq # rqs) st = (r # rs, st'')" by (simp add: p q)
  show ?case
    unfolding r using m ih e by (cases "rqs = []") auto
qed

lemma prefix_take:
  assumes n: "length p = n"
  shows "(\<exists>q r. t = q @ r \<and> toLowerCase q = p) \<longleftrightarrow> toLowerCase (take n t) = p"
proof
  assume "\<exists>q r. t = q @ r \<and> toLowerCase q = p"
  then obtain q r where t: "t = q @ r" and q: "toLowerCase q = p" by blast
  have "length q = n" using q n by (auto simp: toLowerCase_def)
  then show "toLowerCase (take n t) = p"
    using t q by simp
next
  assume a: "toLowerCase (take n t) = p"
  have "t = take n t @ drop n t" by simp
  then show "\<exists>q r. t = q @ r \<and> toLowerCase q = p" using a by blast
qed

lemma hasScheme_startsWithScheme: "hasScheme t = startsWithScheme t"
proof -
  have a: "(\<exists>q r. t = q @ r \<and> toLowerCase q = ''http://'') \<longleftrightarrow> toLowerCase (take 7 t) = ''http://''"
    by (rule prefix_take) simp
  have b: "(\<exists>q r. t = q @ r \<and> toLowerCase q = ''https://'') \<longleftrightarrow> toLowerCase (take 8 t) = ''https://''"
    by (rule prefix_take) simp
  have "hasScheme t \<longleftrightarrow> (\<exists>q r. t = q @ r \<and> toLowerCase q = ''http://'')
                        \<or> (\<exists>q r. t = q @ r \<and> toLowerCase q = ''https://'')"
    unfolding hasScheme_iff by blast
  then show ?thesis unfolding a b startsWithScheme_def .
qed

lemma normalizeFrom_nth:
  "normalizeFrom ns clock uuids i items = Inr ls \<Longrightarrow>
   length ls = length items
   \<and> (\<forall>j < length items. normalizeItem ns (clock (i + j)) (uuids (i + j)) (items ! j) = Inr (ls ! j))"
proof (induction items arbitrary: i ls)
  case Nil
  then show ?case by simp
next
  case (Cons item items)
  from Cons.prems obtain l ls' where
    a: "normalizeItem ns (clock i) (uuids i) item = Inr l"
    and b: "normalizeFrom ns clock uuids (Suc i) items = Inr ls'"
    and c: "ls = l # ls'"
    by (auto split: sum.splits)
  have ih: "length ls' = length items"
    "\<forall>j < length items. normalizeItem ns (clock (Suc i + j)) (uuids (Suc i + j)) (items ! j) = Inr (ls' ! j)"
    using Cons.IH[OF b] by simp_all
  show ?case
  proof (intro conjI allI impI)
    show "length ls = length (item # items)" using c ih by simp
    fix j assume "j < length (item # items)"
    then show "normalizeItem ns (clock (i + j)) (uuids (i + j)) ((item # items) ! j) = Inr (ls ! j)"
      using a c ih by (cases j) auto
  qed
qed

lemma normalizeImportedLinks_candidates:
  "normalizeImportedLinks ns clock uuids data = normalizeFrom ns clock uuids 0 (candidates data)"
  by (cases "case data of JArr xs \<Rightarrow> data | _ \<Rightarrow> getProp data ''links''")
     (simp_all add: normalizeImportedLinks_def candidates_def Let_def)

lemma normalizeItem_fields:
  assumes "normalizeItem ns now uuid item = Inr r"
  shows "link_id r = (if truthy (getProp item ''id'') then getProp item ''id'' else JStr uuid)"
    and "createdAt r = (case getProp item ''createdAt'' of JNum (Finite q) \<Rightarrow> q | _ \<Rightarrow> of_int now)"
    and "updatedAt r = (case getProp item ''updatedAt'' of JNum (Finite q) \<Rightarrow> q | _ \<Rightarrow> of_int now)"
  using assms unfolding normalizeItem_def Let_def
  by (auto split: sum.splits if_splits)

lemma finite_stamp:
  "(JNum (Finite (case v of JNum (Finite q) \<Rightarrow> q | _ \<Rightarrow> d)) = v) = isFinite v"
  by (cases v rule: isFinite.cases) simp_all

lemma kept_id:
  "uuid \<noteq> [] \<Longrightarrow> ((if truthy v then v else JStr uuid) = v) = truthy v"
  by (cases v) auto

lemma normTags_strings:
  "normTags ns (map JStr ss) = Inr (map (\<lambda>s. trim (toLowerCase s)) ss)"
  by (induction ss) simp_all

lemma normalizeItem_returns:
  assumes "getProp item ''title'' = JUndefined \<or> (\<exists>s. getProp item ''title'' = JStr s)"
    and "getProp item ''note'' = JUndefined \<or> (\<exists>s. getProp item ''note'' = JStr s)"
    and "getProp item ''tags'' = JUndefined \<or> (\<exists>ss. getProp item ''tags'' = JArr (map JStr ss))"
  shows "\<exists>r. normalizeItem ns now uuid item = Inr r"
proof -
  have t: "\<exists>t. (if truthy (getProp item ''title'') then toString_js ns (getProp item ''title'')
               else Inr (case getProp item ''url'' of JStr u \<Rightarrow> normalizeUrl u | _ \<Rightarrow> [])) = Inr t"
    using assms(1) by auto
  have n: "\<exists>n. (if truthy (getProp item ''note'') then toString_js ns (getProp item ''note'')
               else Inr []) = Inr n"
    using assms(2) by auto
  have g: "\<exists>tg. (case getProp item ''tags'' of JArr ts \<Rightarrow> normTags ns ts | _ \<Rightarrow> Inr []) = Inr tg"
    using assms(3) by (auto simp: normTags_strings)
  from t n g show ?thesis
    unfolding normalizeItem_def Let_def by (auto split: sum.splits)
qed

lemma importLinks_store_unchanged:
  "snd (importLinks ns clock uuids impl file (ap, st)) = st"
  by (simp add: importLinks_def import_binding_def db_exports_def Let_def
      split: upload.splits sum.splits)

section \<open>The claims\<close>

subsection \<open>putLinks\<close>

text \<open>
  C1: \<open>db.js\<close> exports neither \<open>putLinks\<close> nor \<open>putMany\<close>; the name \<open>putLinks\<close> that
  \<open>App.jsx\<close> imports has no binding, whatever function one expects behind it.
\<close>

theorem putLinks_not_exported:
  "''putLinks'' \<notin> set db_exports \<and> ''putMany'' \<notin> set db_exports
   \<and> import_binding ''putLinks'' impl = None"
  by (simp add: db_exports_def import_binding_def)

subsection \<open>importLinks\<close>

text \<open>
  C2: with a local record for \<open>https://x.com\<close> and a file holding one record for
  \<open>https://x.com\<close> and one for \<open>https://y.com\<close>, \<open>importLinks\<close> ends in its \<open>catch\<close>
  branch: the message is the failure message, no count is reported, and neither the
  collection in memory nor the store gains the \<open>y.com\<close> record.
\<close>

theorem importLinks_xy_fails:
  "importLinks ns clock uuids impl
     (Parsed (JObj [(''links'', JArr [JObj [(''id'', JStr ''b''), (''url'', JStr ''https://x.com'')],
                                     JObj [(''id'', JStr ''c''), (''url'', JStr ''https://y.com'')]])]))
     (sampleApp [sampleLink ''a'' ''https://x.com''] emptyForm, initial_db [sampleLink ''a'' ''https://x.com''])
   = ((sampleApp [sampleLink ''a'' ''https://x.com''] emptyForm)\<lparr>importMessage := ''Could not import that file.''\<rparr>,
      initial_db [sampleLink ''a'' ''https://x.com''])"
  by code_simp

subsection \<open>parseTags\<close>

text \<open>
  C3, as amended: every entry of \<open>parseTags input\<close> is non-empty, trimmed and in lower
  case; the list holds, in the order of the input, the trimmed and lower-cased form of
  each piece between commas that is not blank, so repeated tags stay repeated; and \<open>parseTags "Design, , Marketing ,design"\<close> is the list \<open>design\<close>,
  \<open>marketing\<close>, \<open>design\<close>, whose entries taken as a set are \<open>design\<close> and
  \<open>marketing\<close>.
\<close>

theorem parseTags_entries_normalized:
  "(\<forall>t \<in> set (parseTags input). t \<noteq> [] \<and> trim t = t \<and> toLowerCase t = t)
   \<and> parseTags input
       = map (\<lambda>piece. toLowerCase (trim piece))
           (filter (\<lambda>piece. trim piece \<noteq> []) (split_comma input))
   \<and> length (parseTags input) = length (filter (\<lambda>piece. trim piece \<noteq> []) (split_comma input))
   \<and> parseTags ''Design, , Marketing ,design'' = [''design'', ''marketing'', ''design'']
   \<and> set (parseTags ''Design, , Marketing ,design'') = {''design'', ''marketing''}"
proof (intro conjI)
  show "\<forall>t \<in> set (parseTags input). t \<noteq> [] \<and> trim t = t \<and> toLowerCase t = t"
    using parseTags_entries by blast
  show "parseTags input
       = map (\<lambda>piece. toLowerCase (trim piece))
           (filter (\<lambda>piece. trim piece \<noteq> []) (split_comma input))"
    by (simp add: parseTags_def filter_map comp_def)
  show "length (parseTags input) = length (filter (\<lambda>piece. trim piece \<noteq> []) (split_comma input))"
    by (simp add: parseTags_def filter_map comp_def)
  show e: "parseTags ''Design, , Marketing ,design'' = [''design'', ''marketing'', ''design'']"
    by code_simp
  show "set (parseTags ''Design, , Marketing ,design'') = {''design'', ''marketing''}"
    unfolding e by auto
qed

text \<open>An input with a blank piece, surrounding spaces and three different tags.\<close>

theorem parseTags_entries_normalized_witness:
  "''b c'' \<in> set (parseTags ''Zed, ,B c ,a'') \<and> ''b c'' \<noteq> [] \<and> trim ''b c'' = ''b c''
   \<and> toLowerCase ''b c'' = ''b c''
   \<and> parseTags ''Zed, ,B c ,a'' = [''zed'', ''b c'', ''a'']
   \<and> length (parseTags ''Zed, ,B c ,a'') = 3"
proof -
  note t = parseTags_entries_normalized [of "''Zed, ,B c ,a''"]
  have e: "map (\<lambda>piece. toLowerCase (trim piece))
             (filter (\<lambda>piece. trim piece \<noteq> []) (split_comma ''Zed, ,B c ,a''))
           = [''zed'', ''b c'', ''a'']"
    by code_simp
  have p: "parseTags ''Zed, ,B c ,a'' = [''zed'', ''b c'', ''a'']"
    using t [THEN conjunct2, THEN conjunct1] unfolding e .
  have m: "''b c'' \<in> set (parseTags ''Zed, ,B c ,a'')" unfolding p by simp
  have n: "''b c'' \<noteq> [] \<and> trim ''b c'' = ''b c'' \<and> toLowerCase ''b c'' = ''b c''"
    using t [THEN conjunct1] m by blast
  have l: "length (parseTags ''Zed, ,B c ,a'') = 3" unfolding p by simp
  show ?thesis using m n p l by blast
qed

text \<open>
  The list \<open>parseTags\<close> returns for the specification's own example holds \<open>design\<close>
  twice.
\<close>

theorem parseTags_duplicates_counterexample:
  "\<not> distinct (parseTags ''Design, , Marketing ,design'')"
  by code_simp

subsection \<open>empty URLs\<close>

text \<open>
  C4: \<open>saveEdit\<close> with an empty URL field stores a record whose url is empty, and
  \<open>normalizeImportedLinks\<close> builds a record with an empty url from an item whose
  \<open>url\<close> is the empty string; \<open>handleAdd\<close> alone refuses a blank URL and writes
  nothing.
\<close>

theorem empty_url_reaches_store:
  "objects (snd (saveEdit opensFine 2000 (sampleLink ''a'' ''https://x.com'')
      (sampleApp [sampleLink ''a'' ''https://x.com''] emptyForm, initial_db [sampleLink ''a'' ''https://x.com''])))
     = [\<lparr>link_id = JStr ''a'', url = [], title = [], noteText = [], tags = [],
         createdAt = 1000, updatedAt = 2000\<rparr>]
   \<and> normalizeImportedLinks naturalText (clockAt 5) uuidNumbered (JArr [JObj [(''url'', JStr [])]])
     = Inr [\<lparr>link_id = JStr ''uuid-0'', url = [], title = [], noteText = [], tags = [],
             createdAt = 5, updatedAt = 5\<rparr>]
   \<and> error (fst (handleAdd opensFine 2000 ''u1''
        (sampleApp [] emptyForm, initial_db []))) = ''Please enter a URL.''
   \<and> objects (snd (handleAdd opensFine 2000 ''u1'' (sampleApp [] emptyForm, initial_db []))) = []"
  by code_simp

subsection \<open>normalizeUrl\<close>

text \<open>
  C5: for a non-empty raw string whose trimmed form does not start with \<open>http://\<close> or
  \<open>https://\<close> (in any case), \<open>normalizeUrl\<close> returns \<open>https://\<close> followed by the
  trimmed string; when the trimmed form does start so, it returns the trimmed string;
  for the empty string it returns the empty string.
\<close>

theorem normalizeUrl_cases:
  "(rawUrl \<noteq> [] \<and> \<not> startsWithScheme (trim rawUrl) \<longrightarrow> normalizeUrl rawUrl = ''https://'' @ trim rawUrl)
   \<and> (startsWithScheme (trim rawUrl) \<longrightarrow> normalizeUrl rawUrl = trim rawUrl)
   \<and> normalizeUrl [] = []"
proof -
  have "\<not> hasScheme []" by (simp add: hasScheme_def)
  then have "hasScheme (trim rawUrl) \<Longrightarrow> rawUrl \<noteq> []" by auto
  then show ?thesis
    unfolding hasScheme_startsWithScheme[symmetric] by (auto simp: normalizeUrl_def Let_def)
qed

text \<open>A host without a scheme, and a URL with an upper-case scheme.\<close>

theorem normalizeUrl_cases_witness:
  "'' example.com '' \<noteq> [] \<and> \<not> startsWithScheme (trim '' example.com '')
   \<and> normalizeUrl '' example.com '' = ''https://example.com''
   \<and> startsWithScheme (trim '' HTTP://a.b'')
   \<and> normalizeUrl '' HTTP://a.b'' = ''HTTP://a.b''"
proof -
  have h1: "\<not> startsWithScheme (trim '' example.com '')" by code_simp
  have t1: "trim '' example.com '' = ''example.com''" by code_simp
  have h2: "startsWithScheme (trim '' HTTP://a.b'')" by code_simp
  have t2: "trim '' HTTP://a.b'' = ''HTTP://a.b''" by code_simp
  show ?thesis
    using normalizeUrl_cases [of "'' example.com ''"] normalizeUrl_cases [of "'' HTTP://a.b''"]
      h1 h2 t1 t2 by simp
qed

subsection \<open>addLink\<close>

text \<open>
  C6: on a store that holds the id \<open>a\<close>, the \<open>add\<close> request for another link with the
  id \<open>a\<close> fails with the ConstraintError, but the promise of \<open>addLink\<close> is rejected with
  \<open>null\<close> and not with that error; the store is left as it was. \<open>addLink\<close> of a link
  with the fresh id \<open>b\<close> succeeds, and \<open>getAllLinks\<close> then returns the former record
  and the added one.
\<close>

theorem addLink_duplicate_rejects_with_null:
  "store_add (sampleLink ''a'' ''https://y.com'') [sampleLink ''a'' ''https://x.com'']
     = Fails ConstraintError
   \<and> fst (addLink opensFine (sampleLink ''a'' ''https://y.com'') (initial_db [sampleLink ''a'' ''https://x.com'']))
       = Inl NullReason
   \<and> objects (snd (addLink opensFine (sampleLink ''a'' ''https://y.com'') (initial_db [sampleLink ''a'' ''https://x.com''])))
       = [sampleLink ''a'' ''https://x.com'']
   \<and> fst (addLink opensFine (sampleLink ''b'' ''https://y.com'') (initial_db [sampleLink ''a'' ''https://x.com'']))
       = Inr ()
   \<and> fst (getAllLinks opensFine
            (snd (addLink opensFine (sampleLink ''b'' ''https://y.com'') (initial_db [sampleLink ''a'' ''https://x.com'']))))
       = Inr [sampleLink ''a'' ''https://x.com'', sampleLink ''b'' ''https://y.com'']"
  by code_simp

subsection \<open>updateLink and deleteLink\<close>

text \<open>
  C7: with the database open and valid keys, \<open>updateLink\<close> always succeeds: afterwards
  the record stored at the link's id is the link, every other record is as before, the
  number of records is unchanged when the id was present, and the link is appended
  when it was absent. \<open>deleteLink\<close> always succeeds and leaves exactly the records of
  other ids; when the id was absent the store is unchanged.
\<close>

theorem updateLink_upserts_deleteLink_idempotent:
  assumes conn: "fst (openDB idb st) = Inr ()"
    and key: "validKey (link_id l)" and keyk: "validKey k"
  shows "fst (updateLink idb l st) = Inr ()
       \<and> l \<in> set (objects (snd (updateLink idb l st)))
       \<and> (\<forall>r \<in> set (objects (snd (updateLink idb l st))). link_id r = link_id l \<longrightarrow> r = l)
       \<and> filter (\<lambda>r. link_id r \<noteq> link_id l) (objects (snd (updateLink idb l st)))
           = filter (\<lambda>r. link_id r \<noteq> link_id l) (objects st)
       \<and> (link_id l \<in> set (map link_id (objects st)) \<longrightarrow>
            length (objects (snd (updateLink idb l st))) = length (objects st))
       \<and> (link_id l \<notin> set (map link_id (objects st)) \<longrightarrow>
            objects (snd (updateLink idb l st)) = objects st @ [l])
       \<and> fst (deleteLink idb k st) = Inr ()
       \<and> objects (snd (deleteLink idb k st)) = filter (\<lambda>r. link_id r \<noteq> k) (objects st)
       \<and> (k \<notin> set (map link_id (objects st)) \<longrightarrow>
            objects (snd (deleteLink idb k st)) = objects st)"
proof -
  obtain objs where p: "store_put l (objects st) = Succeeds objs"
    and m: "l \<in> set objs"
    and u: "\<forall>r \<in> set objs. link_id r = link_id l \<longrightarrow> r = l"
    and f: "filter (\<lambda>r. link_id r \<noteq> link_id l) objs = filter (\<lambda>r. link_id r \<noteq> link_id l) (objects st)"
    and n: "link_id l \<in> set (map link_id (objects st)) \<longrightarrow> length objs = length (objects st)"
    and a: "link_id l \<notin> set (map link_id (objects st)) \<longrightarrow> objs = objects st @ [l]"
    using store_put_member[OF key, of "objects st"] by blast
  have up: "updateLink idb l st = (Inr (), (snd (openDB idb st))\<lparr>objects := objs\<rparr>)"
    by (simp add: updateLink_def withStore_connected[OF conn] p)
  have d: "store_delete k (objects st) = Succeeds (filter (\<lambda>r. link_id r \<noteq> k) (objects st))"
    using keyk by (simp add: store_delete_def)
  have de: "deleteLink idb k st
      = (Inr (), (snd (openDB idb st))\<lparr>objects := filter (\<lambda>r. link_id r \<noteq> k) (objects st)\<rparr>)"
    by (simp add: deleteLink_def withStore_connected[OF conn] d)
  have ab: "k \<notin> set (map link_id (objects st)) \<longrightarrow> filter (\<lambda>r. link_id r \<noteq> k) (objects st) = objects st"
    by (auto simp: filter_id_conv)
  have o1: "objects (snd (updateLink idb l st)) = objs" by (simp add: up)
  have o2: "objects (snd (deleteLink idb k st)) = filter (\<lambda>r. link_id r \<noteq> k) (objects st)"
    by (simp add: de)
  have r1: "fst (updateLink idb l st) = Inr ()" by (simp add: up)
  have r2: "fst (deleteLink idb k st) = Inr ()" by (simp add: de)
  show ?thesis
    unfolding o1 o2 using r1 r2 m u f n a ab by blast
qed

text \<open>Updating an id that is not stored, and deleting one that is not stored.\<close>

theorem updateLink_upserts_deleteLink_idempotent_witness:
  "fst (openDB opensFine (initial_db [sampleLink ''a'' ''https://x.com''])) = Inr ()
   \<and> validKey (link_id (sampleLink ''b'' ''https://y.com'')) \<and> validKey (JStr ''zz'')
   \<and> link_id (sampleLink ''b'' ''https://y.com'') \<notin> set (map link_id (objects (initial_db [sampleLink ''a'' ''https://x.com''])))
   \<and> fst (updateLink opensFine (sampleLink ''b'' ''https://y.com'') (initial_db [sampleLink ''a'' ''https://x.com''])) = Inr ()
   \<and> objects (snd (updateLink opensFine (sampleLink ''b'' ''https://y.com'') (initial_db [sampleLink ''a'' ''https://x.com''])))
       = objects (initial_db [sampleLink ''a'' ''https://x.com'']) @ [sampleLink ''b'' ''https://y.com'']
   \<and> JStr ''zz'' \<notin> set (map link_id (objects (initial_db [sampleLink ''a'' ''https://x.com''])))
   \<and> fst (deleteLink opensFine (JStr ''zz'') (initial_db [sampleLink ''a'' ''https://x.com''])) = Inr ()
   \<and> objects (snd (deleteLink opensFine (JStr ''zz'') (initial_db [sampleLink ''a'' ''https://x.com''])))
       = objects (initial_db [sampleLink ''a'' ''https://x.com''])"
proof -
  have c: "fst (openDB opensFine (initial_db [sampleLink ''a'' ''https://x.com''])) = Inr ()"
    by code_simp
  have k1: "validKey (link_id (sampleLink ''b'' ''https://y.com''))" by code_simp
  have k2: "validKey (JStr ''zz'')" by simp
  have f: "link_id (sampleLink ''b'' ''https://y.com'')
             \<notin> set (map link_id (objects (initial_db [sampleLink ''a'' ''https://x.com''])))"
    by code_simp
  have g: "JStr ''zz'' \<notin> set (map link_id (objects (initial_db [sampleLink ''a'' ''https://x.com''])))"
    by code_simp
  show ?thesis
    using updateLink_upserts_deleteLink_idempotent [OF c k1 k2] c k1 k2 f g
    by blast
qed

subsection \<open>imported ids and timestamps\<close>

text \<open>
  C8, as amended: when \<open>normalizeImportedLinks\<close> returns, its \<open>j\<close>-th record comes from
  the \<open>j\<close>-th item that passed the filter; its id is the supplied id exactly when
  that id is truthy, and the generated identifier otherwise; \<open>createdAt\<close> and
  \<open>updatedAt\<close> are the supplied values exactly when those are finite numbers, and
  the time of the call otherwise. (Generated identifiers are not empty.)
\<close>

theorem imported_id_and_timestamps:
  assumes res: "normalizeImportedLinks ns clock uuids data = Inr ls"
    and j: "j < length ls" and u: "uuids j \<noteq> []"
  shows "length ls = length (candidates data)
       \<and> survives (candidates data ! j)
       \<and> (link_id (ls ! j) = getProp (candidates data ! j) ''id''
            \<longleftrightarrow> truthy (getProp (candidates data ! j) ''id''))
       \<and> (\<not> truthy (getProp (candidates data ! j) ''id'') \<longrightarrow> link_id (ls ! j) = JStr (uuids j))
       \<and> (JNum (Finite (createdAt (ls ! j))) = getProp (candidates data ! j) ''createdAt''
            \<longleftrightarrow> isFinite (getProp (candidates data ! j) ''createdAt''))
       \<and> (\<not> isFinite (getProp (candidates data ! j) ''createdAt'') \<longrightarrow> createdAt (ls ! j) = of_int (clock j))
       \<and> (JNum (Finite (updatedAt (ls ! j))) = getProp (candidates data ! j) ''updatedAt''
            \<longleftrightarrow> isFinite (getProp (candidates data ! j) ''updatedAt''))
       \<and> (\<not> isFinite (getProp (candidates data ! j) ''updatedAt'') \<longrightarrow> updatedAt (ls ! j) = of_int (clock j))"
proof -
  have nf: "normalizeFrom ns clock uuids 0 (candidates data) = Inr ls"
    using res by (simp add: normalizeImportedLinks_candidates)
  have len: "length ls = length (candidates data)"
    and it: "normalizeItem ns (clock j) (uuids j) (candidates data ! j) = Inr (ls ! j)"
    using normalizeFrom_nth[OF nf] j by auto
  have "candidates data ! j \<in> set (candidates data)" using j len by simp
  then have sv: "survives (candidates data ! j)"
    by (auto simp: candidates_def split: jsval.splits)
  note f = normalizeItem_fields[OF it]
  have i1: "(link_id (ls ! j) = getProp (candidates data ! j) ''id'')
              = truthy (getProp (candidates data ! j) ''id'')"
    unfolding f(1) by (rule kept_id[OF u])
  have i2: "\<not> truthy (getProp (candidates data ! j) ''id'') \<longrightarrow> link_id (ls ! j) = JStr (uuids j)"
    unfolding f(1) by simp
  have c1: "(JNum (Finite (createdAt (ls ! j))) = getProp (candidates data ! j) ''createdAt'')
              = isFinite (getProp (candidates data ! j) ''createdAt'')"
    unfolding f(2) by (rule finite_stamp)
  have c2: "\<not> isFinite (getProp (candidates data ! j) ''createdAt'') \<longrightarrow> createdAt (ls ! j) = of_int (clock j)"
    unfolding f(2) by (cases "getProp (candidates data ! j) ''createdAt''" rule: isFinite.cases) simp_all
  have u1: "(JNum (Finite (updatedAt (ls ! j))) = getProp (candidates data ! j) ''updatedAt'')
              = isFinite (getProp (candidates data ! j) ''updatedAt'')"
    unfolding f(3) by (rule finite_stamp)
  have u2: "\<not> isFinite (getProp (candidates data ! j) ''updatedAt'') \<longrightarrow> updatedAt (ls ! j) = of_int (clock j)"
    unfolding f(3) by (cases "getProp (candidates data ! j) ''updatedAt''" rule: isFinite.cases) simp_all
  show ?thesis using len sv i1 i2 c1 c2 u1 u2 by blast
qed

text \<open>A file with one well-formed item and one element that is not an object.\<close>

theorem imported_id_and_timestamps_witness:
  "normalizeImportedLinks naturalText (clockAt 5) uuidNumbered
     (JObj [(''links'', JArr [JObj [(''url'', JStr ''a.com''), (''id'', JStr ''k1''),
                                    (''createdAt'', JNum (Finite 42)), (''updatedAt'', JStr ''x'')],
                              JNum (Finite 3)])])
     = Inr [\<lparr>link_id = JStr ''k1'', url = ''https://a.com'', title = ''https://a.com'',
             noteText = [], tags = [], createdAt = 42, updatedAt = 5\<rparr>]
   \<and> uuidNumbered 0 \<noteq> []
   \<and> length (candidates
       (JObj [(''links'', JArr [JObj [(''url'', JStr ''a.com''), (''id'', JStr ''k1''),
                                      (''createdAt'', JNum (Finite 42)), (''updatedAt'', JStr ''x'')],
                                JNum (Finite 3)])])) = 1
   \<and> survives (candidates
       (JObj [(''links'', JArr [JObj [(''url'', JStr ''a.com''), (''id'', JStr ''k1''),
                                      (''createdAt'', JNum (Finite 42)), (''updatedAt'', JStr ''x'')],
                                JNum (Finite 3)])]) ! 0)"
proof -
  have res: "normalizeImportedLinks naturalText (clockAt 5) uuidNumbered
     (JObj [(''links'', JArr [JObj [(''url'', JStr ''a.com''), (''id'', JStr ''k1''),
                                    (''createdAt'', JNum (Finite 42)), (''updatedAt'', JStr ''x'')],
                              JNum (Finite 3)])])
     = Inr [\<lparr>link_id = JStr ''k1'', url = ''https://a.com'', title = ''https://a.com'',
             noteText = [], tags = [], createdAt = 42, updatedAt = 5\<rparr>]"
    by code_simp
  have j: "0 < length [\<lparr>link_id = JStr ''k1'', url = ''https://a.com'', title = ''https://a.com'',
             noteText = [], tags = [], createdAt = 42, updatedAt = 5\<rparr>]"
    by simp
  have u: "uuidNumbered 0 \<noteq> []" by code_simp
  show ?thesis
    using imported_id_and_timestamps [OF res j u] res u by simp
qed

text \<open>
  An item whose id is the number 7 passes the filter and keeps that id, which is not
  a non-empty string.
\<close>

theorem imported_numeric_id_counterexample:
  "survives (JObj [(''url'', JStr ''https://x.com''), (''id'', JNum (Finite 7))])
   \<and> getProp (JObj [(''url'', JStr ''https://x.com''), (''id'', JNum (Finite 7))]) ''id'' = JNum (Finite 7)
   \<and> \<not> isNonEmptyString (JNum (Finite 7))
   \<and> normalizeImportedLinks naturalText (clockAt 5) uuidNumbered
        (JArr [JObj [(''url'', JStr ''https://x.com''), (''id'', JNum (Finite 7))]])
      = Inr [\<lparr>link_id = JNum (Finite 7), url = ''https://x.com'', title = ''https://x.com'',
               noteText = [], tags = [], createdAt = 5, updatedAt = 5\<rparr>]"
  by code_simp

subsection \<open>the memoized connection\<close>

text \<open>
  C9: over any sequence of store operations from the initial module state,
  \<open>indexedDB.open\<close> is called at most once (exactly once when there is an operation);
  when that first request fails with \<open>e\<close>, every operation is rejected with \<open>e\<close>,
  the memoized promise stays the rejected one, and the store is untouched, whatever
  later open requests would have returned.
\<close>

theorem openDB_at_most_once:
  "openCalls (snd (run idb rqs (initial_db objs))) \<le> 1
   \<and> (rqs \<noteq> [] \<longrightarrow> openCalls (snd (run idb rqs (initial_db objs))) = 1)
   \<and> (\<forall>e. idb 0 = Some e \<longrightarrow>
         (\<forall>r \<in> set (fst (run idb rqs (initial_db objs))). r = Inl e)
       \<and> (rqs \<noteq> [] \<longrightarrow> dbPromise (snd (run idb rqs (initial_db objs))) = Some (Inl e))
       \<and> objects (snd (run idb rqs (initial_db objs))) = objs)"
proof -
  have i: "memoInv idb (initial_db objs)"
    by (simp add: initial_db_def memoInv_def)
  have o: "objects (initial_db objs) = objs" by (simp add: initial_db_def)
  show ?thesis
    using run_memo[OF i, of rqs] unfolding o by (auto simp: firstOutcome_def)
qed

text \<open>
  Three operations on a browser whose first open request fails and whose later ones
  would succeed.
\<close>

theorem openDB_at_most_once_witness:
  "firstOpenFails (OpenError ''blocked'') 0 = Some (OpenError ''blocked'')
   \<and> firstOpenFails (OpenError ''blocked'') 1 = None
   \<and> fst (run (firstOpenFails (OpenError ''blocked''))
            [Add (sampleLink ''a'' ''https://x.com''), GetAll, Delete (JStr ''a'')] (initial_db []))
       = [Inl (OpenError ''blocked''), Inl (OpenError ''blocked''), Inl (OpenError ''blocked'')]
   \<and> openCalls (snd (run (firstOpenFails (OpenError ''blocked''))
            [Add (sampleLink ''a'' ''https://x.com''), GetAll, Delete (JStr ''a'')] (initial_db []))) = 1"
proof -
  have h: "firstOpenFails (OpenError ''blocked'') 0 = Some (OpenError ''blocked'')"
    by (simp add: firstOpenFails_def)
  have n: "[Add (sampleLink ''a'' ''https://x.com''), GetAll, Delete (JStr ''a'')] \<noteq> []" by simp
  have l: "length (fst (run (firstOpenFails (OpenError ''blocked''))
            [Add (sampleLink ''a'' ''https://x.com''), GetAll, Delete (JStr ''a'')] (initial_db []))) = 3"
    by code_simp
  show ?thesis
    using openDB_at_most_once [of "firstOpenFails (OpenError ''blocked'')"
        "[Add (sampleLink ''a'' ''https://x.com''), GetAll, Delete (JStr ''a'')]" "[]"] h n l
    by (auto simp: firstOpenFails_def length_Suc_conv numeral_3_eq_3)
qed

subsection \<open>whitespace URLs\<close>

text \<open>
  C10: for a non-empty string of whitespace only, \<open>normalizeUrl\<close> returns
  \<open>https://\<close>; and \<open>saveEdit\<close> with such a URL field tests nothing and stores, at the
  edited link's id, a record whose url is exactly \<open>https://\<close>.
\<close>

theorem saveEdit_whitespace_url:
  assumes ne: "s \<noteq> []" and ws: "\<forall>c \<in> set s. isWhiteSpace c"
    and ef: "f_url (editForm ap) = s"
    and conn: "fst (openDB idb st) = Inr ()" and key: "validKey (link_id l)"
  shows "normalizeUrl s = ''https://''
       \<and> (\<exists>r \<in> set (objects (snd (saveEdit idb now l (ap, st)))).
             link_id r = link_id l \<and> url r = ''https://'')
       \<and> (\<forall>r \<in> set (objects (snd (saveEdit idb now l (ap, st)))).
             link_id r = link_id l \<longrightarrow> url r = ''https://'')"
proof -
  have nu: "normalizeUrl s = ''https://''" by (rule normalizeUrl_whitespace[OF ne ws])
  define updated where "updated = l\<lparr>url := normalizeUrl (f_url (editForm ap)),
       title := (if trim (f_title (editForm ap)) \<noteq> [] then trim (f_title (editForm ap))
                 else normalizeUrl (f_url (editForm ap))),
       noteText := trim (f_note (editForm ap)),
       tags := parseTags (f_tags (editForm ap)),
       updatedAt := of_int now\<rparr>"
  have id: "link_id updated = link_id l" and ur: "url updated = ''https://''"
    by (simp_all add: updated_def ef nu)
  have k: "validKey (link_id updated)" using key id by simp
  obtain objs where p: "store_put updated (objects st) = Succeeds objs"
    and m: "updated \<in> set objs"
    and u: "\<forall>r \<in> set objs. link_id r = link_id updated \<longrightarrow> r = updated"
    using store_put_member[OF k, of "objects st"] by blast
  have up: "updateLink idb updated st = (Inr (), (snd (openDB idb st))\<lparr>objects := objs\<rparr>)"
    by (simp add: updateLink_def withStore_connected[OF conn] p)
  have se: "objects (snd (saveEdit idb now l (ap, st))) = objs"
    unfolding saveEdit_def by (simp add: updated_def[symmetric] Let_def up)
  have "\<exists>r \<in> set objs. link_id r = link_id l \<and> url r = ''https://''"
    using m id ur by blast
  moreover have "\<forall>r \<in> set objs. link_id r = link_id l \<longrightarrow> url r = ''https://''"
    using u id ur by metis
  ultimately show ?thesis
    unfolding se using nu by blast
qed

text \<open>Saving an edit whose URL field is two spaces.\<close>

theorem saveEdit_whitespace_url_witness:
  "''  '' \<noteq> [] \<and> list_all isWhiteSpace ''  ''
   \<and> fst (openDB opensFine (initial_db [sampleLink ''a'' ''https://x.com''])) = Inr ()
   \<and> validKey (link_id (sampleLink ''a'' ''https://x.com''))
   \<and> normalizeUrl ''  '' = ''https://''
   \<and> (\<exists>r \<in> set (objects (snd (saveEdit opensFine 2000 (sampleLink ''a'' ''https://x.com'')
          (sampleApp [sampleLink ''a'' ''https://x.com''] \<lparr>f_url = ''  '', f_title = ''t'', f_note = [], f_tags = []\<rparr>,
           initial_db [sampleLink ''a'' ''https://x.com''])))).
        link_id r = link_id (sampleLink ''a'' ''https://x.com'') \<and> url r = ''https://'')"
proof -
  have n: "''  '' \<noteq> []" by simp
  have w: "\<forall>c \<in> set ''  ''. isWhiteSpace c" by (simp add: isWhiteSpace_def)
  have e: "f_url (editForm (sampleApp [sampleLink ''a'' ''https://x.com'']
              \<lparr>f_url = ''  '', f_title = ''t'', f_note = [], f_tags = []\<rparr>)) = ''  ''"
    by (simp add: sampleApp_def)
  have c: "fst (openDB opensFine (initial_db [sampleLink ''a'' ''https://x.com''])) = Inr ()"
    by code_simp
  have k: "validKey (link_id (sampleLink ''a'' ''https://x.com''))" by code_simp
  show ?thesis
    using saveEdit_whitespace_url [OF n w e c k, of 2000] n w c k
    unfolding list_all_iff by blast
qed

end
